theory Spec2Isabelle
  imports Complex_Main "HOL-Library.Sublist"
begin

section \<open>Device Logger: checkpoint timers, prompt serialisation and the record sheet\<close>

text \<open>
  A shallow embedding of \<^verbatim>\<open>src/main.py\<close>. The Tk widgets, the beep and the activity
  log are left out; what the operator does at a dialog is an input of the function that
  models the dialog, and the dialogs a function opens are appended to the field
  \<open>shown\<close> of the state, so that "a prompt was shown" is observable.
\<close>

subsection \<open>Time\<close>

text \<open>
  A naive \<^verbatim>\<open>datetime\<close> has microsecond resolution: it is modelled as the integer
  number of microseconds since a fixed local midnight, a \<^verbatim>\<open>timedelta\<close> as an integer
  number of microseconds. \<^verbatim>\<open>total_seconds()\<close> is the exact quotient by \<open>10^6\<close>; the
  source's float is the rounding of that rational.
\<close>

type_synonym datetime = int
type_synonym timedelta = int

definition seconds :: "int \<Rightarrow> timedelta" where
  "seconds n = n * 1000000"

definition total_seconds :: "timedelta \<Rightarrow> rat" where
  "total_seconds d = of_int d / 1000000"

text \<open>\<^verbatim>\<open>int(x)\<close> on a float truncates towards zero.\<close>

definition int_trunc_seconds :: "timedelta \<Rightarrow> int" where
  "int_trunc_seconds d = sgn d * (\<bar>d\<bar> div 1000000)"

definition digit_char :: "nat \<Rightarrow> char" where
  "digit_char n = char_of (48 + n mod 10)"

definition two_digits :: "nat \<Rightarrow> string" where
  "two_digits n = [digit_char (n div 10), digit_char n]"

text \<open>\<^verbatim>\<open>strftime('%H:%M:%S')\<close>: the time of day of the timestamp.\<close>

definition strftime_HMS :: "datetime \<Rightarrow> string" where
  "strftime_HMS t =
     (let s = nat ((t div 1000000) mod 86400)
      in two_digits (s div 3600) @ '':'' @ two_digits ((s div 60) mod 60) @ '':''
           @ two_digits (s mod 60))"

subsection \<open>Configuration and data model\<close>

definition CHECKPOINTS :: "int list" where
  "CHECKPOINTS = [20, 40]"

record TimerData =
  serial :: string
  station :: int
  tech :: string
  start :: datetime
  done_checks :: nat
  cancelled :: bool
  error :: bool

text \<open>\<^verbatim>\<open>TimerData.__init__\<close>; \<open>now\<close> is the value \<^verbatim>\<open>datetime.now()\<close> returns.\<close>

definition TimerData_init :: "string \<Rightarrow> int \<Rightarrow> string \<Rightarrow> datetime \<Rightarrow> TimerData" where
  "TimerData_init sn st tc now =
     \<lparr>serial = sn, station = st, tech = tc, start = now, done_checks = 0,
      cancelled = False, error = False\<rparr>"

definition next_delta :: "TimerData \<Rightarrow> datetime \<Rightarrow> rat option" where
  "next_delta td now =
     (if done_checks td \<ge> length CHECKPOINTS then None
      else let target = start td + seconds (CHECKPOINTS ! done_checks td)
           in Some (total_seconds (target - now)))"

subsection \<open>Strings\<close>

text \<open>
  Strings are ASCII: code points above 127 are outside the model. On ASCII,
  \<^verbatim>\<open>str.isspace\<close> holds of the characters 9 to 13 and 28 to 32, \<^verbatim>\<open>str.isdigit\<close>
  of non-empty strings of the characters \<^verbatim>\<open>0\<close> to \<^verbatim>\<open>9\<close>, and \<^verbatim>\<open>int\<close> of such a
  string is its decimal value.
\<close>

definition isspace :: "char \<Rightarrow> bool" where
  "isspace c = (let n = (of_char c :: nat) in (9 \<le> n \<and> n \<le> 13) \<or> (28 \<le> n \<and> n \<le> 32))"

definition strip :: "string \<Rightarrow> string" where
  "strip s = rev (dropWhile isspace (rev (dropWhile isspace s)))"

definition isdigit_char :: "char \<Rightarrow> bool" where
  "isdigit_char c = (let n = (of_char c :: nat) in 48 \<le> n \<and> n \<le> 57)"

definition isdigit :: "string \<Rightarrow> bool" where
  "isdigit s = (s \<noteq> [] \<and> list_all isdigit_char s)"

definition py_int :: "string \<Rightarrow> int" where
  "py_int s = foldl (\<lambda>a c. 10 * a + (int (of_char c) - 48)) 0 s"

text \<open>\<^verbatim>\<open>str.zfill(w)\<close>: zeros after a leading sign, up to width \<open>w\<close>.\<close>

definition zfill :: "nat \<Rightarrow> string \<Rightarrow> string" where
  "zfill w s =
     (if w \<le> length s then s
      else case s of
             [] \<Rightarrow> replicate w (CHR ''0'')
           | c # r \<Rightarrow>
               if c = CHR ''+'' \<or> c = CHR ''-''
               then c # replicate (w - length s) (CHR ''0'') @ r
               else replicate (w - length s) (CHR ''0'') @ s)"

subsection \<open>The program state\<close>

text \<open>
  A cell of the worksheet holds a string, an integer or nothing. The worksheet
  \<open>sheet\<close> is the list of its rows, row 1 (the header of the template) first.
\<close>

datatype cell = CStr string | CInt int | CNone

type_synonym row = "cell list"

text \<open>\<^verbatim>\<open>row[i].value\<close>; \<^verbatim>\<open>iter_rows\<close> pads every row to the width of the sheet.\<close>

definition cell_at :: "row \<Rightarrow> nat \<Rightarrow> cell" where
  "cell_at r i = (if i < length r then r ! i else CNone)"

datatype py_error = KeyError | TypeError | AttributeError

text \<open>The dialogs the program opens: \<^verbatim>\<open>scan(prompt)\<close> and the message boxes, by title.\<close>

datatype dialog =
    ScanSerial
  | ScanStation
  | RescanSerial int
  | ErrorBox string
  | AskCancel int
  | EntryWindow int nat
  | ReviewWindow int nat

text \<open>A queued checkpoint event: (serial, station, idx, sched_time, tech).\<close>

type_synonym event = "string \<times> int \<times> nat \<times> datetime \<times> string"

text \<open>
  A sleeping \<^verbatim>\<open>worker\<close> thread of \<^verbatim>\<open>schedule\<close>: the address of the \<^verbatim>\<open>td\<close> its closure
  holds, the closure's serial, station and tech, and its arguments (idx, delay, start).
\<close>

type_synonym worker = "nat \<times> string \<times> int \<times> string \<times> nat \<times> int \<times> datetime"

text \<open>What a capture page or the review grid holds for one field.\<close>

datatype slot = Digits string string | Choice string

text \<open>
  A \<^verbatim>\<open>popup\<close>: its thread is started and at \<^verbatim>\<open>prompt_lock.acquire()\<close>; it holds the
  lock and is at the rescan dialog, on the capture pages or on the review grid (with
  the \<^verbatim>\<open>widgets\<close> of the grid); it has returned and released the lock; or it has stopped
  on an exception before the review grid was built.
\<close>

datatype phase =
    Spawned
  | Verify
  | Capture
  | Review "(string \<times> slot) list"
  | Returned
  | Died py_error

text \<open>
  \<^verbatim>\<open>TimerData\<close> objects are shared: a worker's closure and the dict \<^verbatim>\<open>timers\<close> refer to
  the same object, and \<^verbatim>\<open>cancel\<close> mutates it after taking it out of the dict. So the
  objects live in \<open>heap\<close>, by address, and \<open>timers\<close> maps a station to an address.
\<close>

record state =
  heap :: "nat \<Rightarrow> TimerData"
  next_ref :: nat
  timers :: "int \<rightharpoonup> nat"
  workers :: "worker list"
  prompt_q :: "event list"
  prompt_lock :: nat
  popups :: "(event \<times> phase) list"
  sheet :: "row list"
  shown :: "dialog list"

text \<open>The state after start-up, over the worksheet copied from the template.\<close>

definition init_state :: "row list \<Rightarrow> state" where
  "init_state template =
     \<lparr>heap = (\<lambda>_. TimerData_init [] 0 [] 0), next_ref = 0, timers = Map.empty,
      workers = [], prompt_q = [], prompt_lock = 1, popups = [], sheet = template,
      shown = []\<rparr>"

definition show_dialog :: "dialog \<Rightarrow> state \<Rightarrow> state" where
  "show_dialog d s = s\<lparr>shown := shown s @ [d]\<rparr>"

subsection \<open>Excel I/O\<close>

text \<open>
  \<^verbatim>\<open>write_excel\<close>: load, append after the last row, save. Failures of the file system
  are not modelled.
\<close>

definition write_excel :: "row \<Rightarrow> state \<Rightarrow> state" where
  "write_excel r s = s\<lparr>sheet := sheet s @ [r]\<rparr>"

text \<open>
  \<^verbatim>\<open>ws.delete_rows(r)\<close> removes row \<open>r\<close> (counted from 1) and moves the rows below it
  up by one; beyond the last row it removes nothing.
\<close>

definition delete_rows :: "nat \<Rightarrow> row list \<Rightarrow> row list" where
  "delete_rows r ws = take (r - 1) ws @ drop r ws"

text \<open>
  The loop of \<^verbatim>\<open>cancel\<close> runs over a snapshot \<^verbatim>\<open>list(ws.iter_rows(min_row=2))\<close> of the
  rows, numbered from 2 as they were before the loop, and deletes from the live sheet.
\<close>

fun retract_loop :: "int \<Rightarrow> (nat \<times> row) list \<Rightarrow> row list \<Rightarrow> row list" where
  "retract_loop st [] ws = ws"
| "retract_loop st ((r, rw) # rest) ws =
     retract_loop st rest (if cell_at rw 1 = CInt st then delete_rows r ws else ws)"

definition retract :: "int \<Rightarrow> row list \<Rightarrow> row list" where
  "retract st ws = retract_loop st (enumerate 2 (drop 1 ws)) ws"

subsection \<open>Scheduler and queue\<close>

text \<open>
  \<^verbatim>\<open>schedule\<close>: a new \<^verbatim>\<open>TimerData\<close> is stored under the station and one worker thread
  per checkpoint is started, \<^verbatim>\<open>enumerate(CHECKPOINTS, start=1)\<close>.
\<close>

definition schedule :: "string \<Rightarrow> int \<Rightarrow> string \<Rightarrow> datetime \<Rightarrow> state \<Rightarrow> state" where
  "schedule sn st tc now s =
     (let a = next_ref s;
          td = TimerData_init sn st tc now
      in s\<lparr>heap := (heap s)(a := td), next_ref := Suc a, timers := (timers s)(st \<mapsto> a),
           workers := workers s
             @ map (\<lambda>(i, sec). (a, sn, st, tc, i, sec, start td)) (enumerate 1 CHECKPOINTS)\<rparr>)"

text \<open>The scheduled time a worker puts into its event.\<close>

definition sched_time :: "nat \<Rightarrow> datetime \<Rightarrow> datetime" where
  "sched_time idx start0 = start0 + seconds (sum_list (take idx CHECKPOINTS))"

text \<open>The body of \<^verbatim>\<open>worker\<close> once \<^verbatim>\<open>time.sleep(delay)\<close> has returned.\<close>

definition worker :: "worker \<Rightarrow> state \<Rightarrow> state" where
  "worker w s =
     (case w of (a, sn, st, tc, idx, delay, start0) \<Rightarrow>
        if \<not> cancelled (heap s a)
        then s\<lparr>prompt_q := prompt_q s @ [(sn, st, idx, sched_time idx start0, tc)]\<rparr>
        else s)"

text \<open>\<^verbatim>\<open>prompt_user\<close> starts a thread that runs \<^verbatim>\<open>popup\<close>, and returns.\<close>

definition prompt_user :: "event \<Rightarrow> state \<Rightarrow> state" where
  "prompt_user ev s = s\<lparr>popups := popups s @ [(ev, Spawned)]\<rparr>"

text \<open>
  One turn of the consumer thread, \<^verbatim>\<open>prompt_user(*prompt_q.get())\<close>; on an empty queue
  \<^verbatim>\<open>get\<close> blocks.
\<close>

definition consume :: "state \<Rightarrow> state option" where
  "consume s =
     (case prompt_q s of
        [] \<Rightarrow> None
      | ev # q \<Rightarrow> Some (prompt_user ev (s\<lparr>prompt_q := q\<rparr>)))"

subsection \<open>The button bar\<close>

text \<open>
  The loop of \<^verbatim>\<open>start\<close> that scans a station number, over the texts the operator
  scans one after the other: the station it accepts, if any, and the dialogs it opens.
  With no text left the scan dialog stays open.
\<close>

fun station_loop :: "int \<Rightarrow> string list \<Rightarrow> int option \<times> dialog list" where
  "station_loop N [] = (None, [ScanStation])"
| "station_loop N (x # xs) =
     (if \<not> isdigit (strip x)
      then (case station_loop N xs of (r, ds) \<Rightarrow> (r, ScanStation # ErrorBox ''Invalid'' # ds))
      else let st = py_int (strip x)
           in if st < 1 \<or> st > N
              then (case station_loop N xs of (r, ds) \<Rightarrow> (r, ScanStation # ErrorBox ''Invalid'' # ds))
              else (Some st, [ScanStation]))"

text \<open>
  \<^verbatim>\<open>start\<close>, the command of the Start button (\<open>start\<close> being the field of
  \<open>TimerData\<close> here). \<open>N\<close> is \<^verbatim>\<open>NUM_STATIONS\<close> of the configuration file,
  \<open>tech_var\<close> the text of the technician entry, \<open>sn_text\<close> the text scanned as serial
  number. The result is \<open>None\<close> while the station dialog is open.
\<close>

definition start_cmd ::
  "int \<Rightarrow> string \<Rightarrow> string \<Rightarrow> string list \<Rightarrow> datetime \<Rightarrow> state \<Rightarrow> state option" where
  "start_cmd N tech_var sn_text st_texts now s =
     (if strip tech_var = [] then Some (show_dialog (ErrorBox ''Tech'') s)
      else
        let sn = strip sn_text;
            s1 = show_dialog ScanSerial s
        in case station_loop N st_texts of
             (None, ds) \<Rightarrow> None
           | (Some st, ds) \<Rightarrow>
               let s2 = s1\<lparr>shown := shown s1 @ ds\<rparr>
               in if (case timers s2 st of
                        None \<Rightarrow> False
                      | Some a \<Rightarrow> done_checks (heap s2 a) < length CHECKPOINTS
                                  \<and> \<not> cancelled (heap s2 a))
                  then Some (show_dialog (ErrorBox ''Busy'') s2)
                  else Some (schedule sn st (strip tech_var) now s2))"

datatype result = Ok state | Raised py_error state

text \<open>
  \<^verbatim>\<open>cancel\<close>, the command of the Cancel button: \<open>sel\<close> is the station of the selected
  line of the tree, if one is selected, \<open>yes\<close> the answer to the confirmation.
\<close>

definition cancel :: "int option \<Rightarrow> bool \<Rightarrow> state \<Rightarrow> result" where
  "cancel sel yes s =
     (case sel of
        None \<Rightarrow> Ok (show_dialog (ErrorBox ''Select'') s)
      | Some st \<Rightarrow>
          let s1 = show_dialog (AskCancel st) s
          in if \<not> yes then Ok s1
             else case timers s1 st of
                    None \<Rightarrow> Raised KeyError s1
                  | Some a \<Rightarrow>
                      Ok (s1\<lparr>timers := (timers s1)(st := None),
                             heap := (heap s1)(a := (heap s1 a)\<lparr>cancelled := True\<rparr>),
                             sheet := retract st (sheet s1)\<rparr>))"

subsection \<open>The data entry popup\<close>

datatype ftype = Digit | Toggle

definition fields :: "(string \<times> ftype) list" where
  "fields =
     [(''Voltage'', Digit), (''Current'', Digit), (''Clamp Current'', Digit),
      (''Temperature'', Digit), (''Control Light'', Toggle), (''Load Bank Light'', Toggle)]"

text \<open>
  The \<^verbatim>\<open>validatecommand\<close> of the two entries of a capture page, called with the text
  the entry would hold after the edit; an edit it refuses leaves the entry as it was.
\<close>

definition vcmd :: "string \<Rightarrow> bool" where
  "vcmd P = ((isdigit P \<and> length P \<le> 2) \<or> P = [])"

fun type_keys :: "string list \<Rightarrow> string \<Rightarrow> string" where
  "type_keys [] v = v"
| "type_keys (P # Ps) v = type_keys Ps (if vcmd P then P else v)"

datatype button = BtnON | BtnOFF

fun press :: "button list \<Rightarrow> string \<Rightarrow> string" where
  "press [] v = v"
| "press (BtnON # bs) v = press bs ''ON''"
| "press (BtnOFF # bs) v = press bs ''OFF''"

text \<open>
  What the operator does on one capture page before Enter: the edits attempted in the
  two entries of a digit page, or the buttons pressed on a toggle page.
\<close>

datatype field_input = Keys "string list" "string list" | Presses "button list"

text \<open>
  \<^verbatim>\<open>ask\<close> and \<^verbatim>\<open>next_field\<close>: one page per field, in the order of \<open>fields\<close>, each
  adding its entry to \<^verbatim>\<open>entries\<close>. The result is \<open>None\<close> when the inputs end before
  the last page (the page stays open) or do not fit the page.
\<close>

fun ask ::
  "(string \<times> ftype) list \<Rightarrow> field_input list \<Rightarrow> (string \<times> slot) list
     \<Rightarrow> (string \<times> slot) list option" where
  "ask [] ins entries = Some entries"
| "ask ((label, Digit) # fs) (Keys ps qs # ins) entries =
     ask fs ins (entries @ [(label, Digits (type_keys ps []) (type_keys qs []))])"
| "ask ((label, Toggle) # fs) (Presses bs # ins) entries =
     ask fs ins (entries @ [(label, Choice (press bs ''ON''))])"
| "ask fs ins entries = None"

text \<open>
  \<^verbatim>\<open>review\<close> builds \<^verbatim>\<open>widgets\<close>: for a digit field two new entries filled with the
  captured texts (they have no \<^verbatim>\<open>validatecommand\<close>), for a toggle field the variable of
  the capture page, bound to a read-only combobox of ON and OFF.
\<close>

fun review :: "(string \<times> ftype) list \<Rightarrow> (string \<times> slot) list \<Rightarrow> py_error + (string \<times> slot) list" where
  "review [] entries = Inr []"
| "review ((label, ft) # fs) entries =
     (case map_of entries label of
        None \<Rightarrow> Inl KeyError
      | Some sl \<Rightarrow>
          (case (ft, sl) of
             (Digit, Choice v) \<Rightarrow> Inl TypeError
           | _ \<Rightarrow> (case review fs entries of
                    Inl e \<Rightarrow> Inl e
                  | Inr w \<Rightarrow> Inr ((label, sl) # w))))"

text \<open>An edit on the review grid: any text in an entry, ON or OFF in a combobox.\<close>

datatype review_edit = EditWhole string string | EditFrac string string | Select string button

fun edit_label :: "review_edit \<Rightarrow> string" where
  "edit_label (EditWhole l t) = l"
| "edit_label (EditFrac l t) = l"
| "edit_label (Select l b) = l"

fun edit_slot :: "review_edit \<Rightarrow> slot \<Rightarrow> slot" where
  "edit_slot (EditWhole l t) (Digits e1 e2) = Digits t e2"
| "edit_slot (EditFrac l t) (Digits e1 e2) = Digits e1 t"
| "edit_slot (Select l BtnON) (Choice v) = Choice ''ON''"
| "edit_slot (Select l BtnOFF) (Choice v) = Choice ''OFF''"
| "edit_slot e sl = sl"

definition apply_edit :: "(string \<times> slot) list \<Rightarrow> review_edit \<Rightarrow> (string \<times> slot) list" where
  "apply_edit w e = map (\<lambda>(l, sl). if l = edit_label e then (l, edit_slot e sl) else (l, sl)) w"

text \<open>The cells \<^verbatim>\<open>save\<close> appends for the fields.\<close>

fun field_cells :: "(string \<times> ftype) list \<Rightarrow> (string \<times> slot) list \<Rightarrow> py_error + cell list" where
  "field_cells [] w = Inr []"
| "field_cells ((label, ft) # fs) w =
     (case map_of w label of
        None \<Rightarrow> Inl KeyError
      | Some sl \<Rightarrow>
          (case (ft, sl) of
             (Digit, Digits e1 e2) \<Rightarrow>
               (case field_cells fs w of
                  Inl e \<Rightarrow> Inl e
                | Inr cs \<Rightarrow> Inr (CStr (zfill 2 e1 @ ''.'' @ zfill 2 e2) # cs))
           | (Toggle, Choice v) \<Rightarrow>
               (case field_cells fs w of
                  Inl e \<Rightarrow> Inl e
                | Inr cs \<Rightarrow> Inr (CStr v # cs))
           | (Digit, Choice v) \<Rightarrow> Inl TypeError
           | (Toggle, Digits e1 e2) \<Rightarrow> Inl AttributeError))"

text \<open>\<^verbatim>\<open>any(widgets[l].get()=='OFF' for l in ...)\<close>, which stops at the first OFF.\<close>

fun any_off :: "(string \<times> slot) list \<Rightarrow> string list \<Rightarrow> py_error + bool" where
  "any_off w [] = Inr False"
| "any_off w (l # ls) =
     (case map_of w l of
        None \<Rightarrow> Inl KeyError
      | Some (Digits e1 e2) \<Rightarrow> Inl AttributeError
      | Some (Choice v) \<Rightarrow> if v = ''OFF'' then Inr True else any_off w ls)"

definition release :: "state \<Rightarrow> state" where
  "release s = s\<lparr>prompt_lock := prompt_lock s + 1\<rparr>"

text \<open>
  \<^verbatim>\<open>save\<close>, for the event of the popup and the widgets of the review grid; \<open>now1\<close> and
  \<open>now2\<close> are the two readings of the clock, for the actual time and for the lateness.
\<close>

definition save ::
  "event \<Rightarrow> (string \<times> slot) list \<Rightarrow> datetime \<Rightarrow> datetime \<Rightarrow> state \<Rightarrow> result" where
  "save ev widgets now1 now2 s =
     (case ev of (sn, st, idx, sched, tc) \<Rightarrow>
        case field_cells fields widgets of
          Inl e \<Rightarrow> Raised e s
        | Inr cells \<Rightarrow>
            let rw = [CStr sn, CInt st, CInt (int idx), CStr (strftime_HMS sched),
                      CStr (strftime_HMS now1), CInt \<bar>int_trunc_seconds (now2 - sched)\<bar>]
                     @ cells @ [CStr tc]
            in case any_off widgets [''Control Light'', ''Load Bank Light''] of
                 Inl e \<Rightarrow> Raised e s
               | Inr err \<Rightarrow>
                   (case timers s st of
                      None \<Rightarrow> Raised KeyError s
                    | Some a \<Rightarrow>
                        let s1 = s\<lparr>heap := (heap s)(a := (heap s a)\<lparr>error := err\<rparr>)\<rparr>;
                            s2 = s1\<lparr>heap := (heap s1)
                                   (a := (heap s1 a)\<lparr>done_checks := done_checks (heap s1 a) + 1\<rparr>)\<rparr>
                        in Ok (release (write_excel rw s2))))"

text \<open>
  On the review grid both the button Confirm and Save and the close button of the
  window (\<^verbatim>\<open>WM_DELETE_WINDOW\<close>) are bound to \<^verbatim>\<open>save\<close>.
\<close>

datatype review_action = ConfirmSave | CloseWindow

definition review_command ::
  "review_action \<Rightarrow> event \<Rightarrow> (string \<times> slot) list \<Rightarrow> datetime \<Rightarrow> datetime \<Rightarrow> state \<Rightarrow> result" where
  "review_command act ev widgets now1 now2 s =
     (case act of
        ConfirmSave \<Rightarrow> save ev widgets now1 now2 s
      | CloseWindow \<Rightarrow> save ev widgets now1 now2 s)"

subsection \<open>The steps of a popup\<close>

definition set_phase :: "nat \<Rightarrow> phase \<Rightarrow> state \<Rightarrow> state" where
  "set_phase i ph s = s\<lparr>popups := (popups s)[i := (fst (popups s ! i), ph)]\<rparr>"

definition in_phase :: "nat \<Rightarrow> phase \<Rightarrow> state \<Rightarrow> bool" where
  "in_phase i ph s = (i < length (popups s) \<and> snd (popups s ! i) = ph)"

text \<open>
  \<^verbatim>\<open>prompt_lock.acquire()\<close> returns only while the counter is positive; then the popup
  opens the rescan dialog.
\<close>

definition popup_acquire :: "nat \<Rightarrow> state \<Rightarrow> state option" where
  "popup_acquire i s =
     (if in_phase i Spawned s \<and> 0 < prompt_lock s
      then (case fst (popups s ! i) of (sn, st, idx, sched, tc) \<Rightarrow>
              Some (show_dialog (RescanSerial st)
                     (set_phase i Verify (s\<lparr>prompt_lock := prompt_lock s - 1\<rparr>))))
      else None)"

text \<open>The serial verification; \<open>typed\<close> is the text of the rescan dialog.\<close>

definition popup_verify :: "nat \<Rightarrow> string \<Rightarrow> state \<Rightarrow> state option" where
  "popup_verify i typed s =
     (if in_phase i Verify s
      then (case fst (popups s ! i) of (sn, st, idx, sched, tc) \<Rightarrow>
              if strip typed \<noteq> sn
              then Some (set_phase i Returned (release (show_dialog (ErrorBox ''Mismatch'') s)))
              else Some (show_dialog (EntryWindow st idx) (set_phase i Capture s)))
      else None)"

text \<open>The capture pages, up to the review grid.\<close>

definition popup_capture :: "nat \<Rightarrow> field_input list \<Rightarrow> state \<Rightarrow> state option" where
  "popup_capture i ins s =
     (if in_phase i Capture s
      then (case ask fields ins [] of
              None \<Rightarrow> None
            | Some entries \<Rightarrow>
                (case review fields entries of
                   Inl e \<Rightarrow> Some (set_phase i (Died e) s)
                 | Inr w \<Rightarrow>
                     (case fst (popups s ! i) of (sn, st, idx, sched, tc) \<Rightarrow>
                        Some (show_dialog (ReviewWindow st idx) (set_phase i (Review w) s)))))
      else None)"

text \<open>
  The review grid: the operator's edits, then Confirm or close. When \<^verbatim>\<open>save\<close> raises,
  the window stays open and the lock stays taken.
\<close>

definition popup_finish ::
  "nat \<Rightarrow> review_edit list \<Rightarrow> review_action \<Rightarrow> datetime \<Rightarrow> datetime \<Rightarrow> state \<Rightarrow> state option" where
  "popup_finish i edits act now1 now2 s =
     (if i < length (popups s)
      then (case snd (popups s ! i) of
              Review w \<Rightarrow>
                (case review_command act (fst (popups s ! i)) (foldl apply_edit w edits) now1 now2 s of
                   Ok s' \<Rightarrow> Some (set_phase i Returned s')
                 | Raised e s' \<Rightarrow> Some s')
            | _ \<Rightarrow> None)
      else None)"

subsection \<open>Runs of the program\<close>

text \<open>
  The threads and the operator interleave. An action is one atomic step of one of them:
  a command of the button bar, a worker waking up, a turn of the consumer thread, or a
  step of a popup. A step is \<open>None\<close> when the action cannot happen in the state. An
  exception in \<^verbatim>\<open>cancel\<close> ends the command. The times read from the clock are part of
  the actions; when a sleeping worker wakes is left open.
\<close>

datatype action =
    Start string string "string list" datetime
  | Cancel "int option" bool
  | Wake nat
  | Consume
  | Acquire nat
  | Rescan nat string
  | Fill nat "field_input list"
  | Finish nat "review_edit list" review_action datetime datetime

fun step :: "int \<Rightarrow> action \<Rightarrow> state \<Rightarrow> state option" where
  "step N (Start tv sn sts now) s = start_cmd N tv sn sts now s"
| "step N (Cancel sel yes) s = (case cancel sel yes s of Ok s' \<Rightarrow> Some s' | Raised e s' \<Rightarrow> Some s')"
| "step N (Wake i) s =
     (if i < length (workers s)
      then Some (worker (workers s ! i) (s\<lparr>workers := take i (workers s) @ drop (Suc i) (workers s)\<rparr>))
      else None)"
| "step N Consume s = consume s"
| "step N (Acquire i) s = popup_acquire i s"
| "step N (Rescan i typed) s = popup_verify i typed s"
| "step N (Fill i ins) s = popup_capture i ins s"
| "step N (Finish i edits act now1 now2) s = popup_finish i edits act now1 now2 s"

fun run :: "int \<Rightarrow> action list \<Rightarrow> state \<Rightarrow> state option" where
  "run N [] s = Some s"
| "run N (a # as) s = (case step N a s of None \<Rightarrow> None | Some s' \<Rightarrow> run N as s')"

text \<open>A popup that has taken the lock and not released it.\<close>

fun holding :: "phase \<Rightarrow> bool" where
  "holding Spawned = False"
| "holding Returned = False"
| "holding ph = True"

definition in_progress :: "state \<Rightarrow> (event \<times> phase) list" where
  "in_progress s = filter (holding \<circ> snd) (popups s)"

text \<open>The stations of the rescan dialogs shown, in the order they were shown.\<close>

fun prompted :: "dialog list \<Rightarrow> int list" where
  "prompted [] = []"
| "prompted (RescanSerial st # ds) = st # prompted ds"
| "prompted (d # ds) = prompted ds"

subsection \<open>Invariants and observations\<close>

text \<open>The counter of the semaphore and the number of popups in progress add up to one.\<close>

definition lock_inv :: "state \<Rightarrow> bool" where
  "lock_inv s = (prompt_lock s + length (in_progress s) = 1)"

text \<open>The events in the order they were put into the queue: those taken, then those waiting.\<close>

definition handed :: "state \<Rightarrow> event list" where
  "handed s = map fst (popups s) @ prompt_q s"

text \<open>The timer the registry holds for a station.\<close>

definition timer_of :: "int \<Rightarrow> state \<Rightarrow> TimerData option" where
  "timer_of st s = map_option (heap s) (timers s st)"

text \<open>A review grid with a pair of entries for each digit field and ON or OFF for each toggle.\<close>

fun fits :: "ftype \<Rightarrow> slot \<Rightarrow> bool" where
  "fits Digit (Digits e1 e2) = True"
| "fits Toggle (Choice v) = (v = ''ON'' \<or> v = ''OFF'')"
| "fits ft sl = False"

definition shape :: "(string \<times> ftype) list \<Rightarrow> (string \<times> slot) list \<Rightarrow> bool" where
  "shape fs w = list_all2 (\<lambda>f e. fst e = fst f \<and> fits (snd f) (snd e)) fs w"

subsection \<open>Example data\<close>

text \<open>A row as \<^verbatim>\<open>save\<close> writes it, for the serial, station and check given.\<close>

definition logged_row :: "string \<Rightarrow> int \<Rightarrow> nat \<Rightarrow> row" where
  "logged_row sn st idx =
     [CStr sn, CInt st, CInt (int idx), CStr ''10:00:20'', CStr ''10:00:21'', CInt 1,
      CStr ''12.34'', CStr ''01.20'', CStr ''00.05'', CStr ''25.00'', CStr ''ON'', CStr ''ON'',
      CStr ''Alice'']"

definition header_row :: row where
  "header_row = [CStr ''Serial'', CStr ''Station'']"

text \<open>
  Station 1 is registered at time 0 and station 2 twenty seconds later. The popup of
  check 1 of station 1 is at its rescan dialog when, forty seconds after time 0, the
  workers of check 2 of station 1 and of check 1 of station 2 wake, in that order; the
  consumer thread starts a popup for each, and both wait for the semaphore. The rescan
  of the first popup does not match, the semaphore is released, and the popup of
  station 2 is the one that gets it.
\<close>

definition race_actions :: "action list" where
  "race_actions =
     [Start ''Alice'' ''SN1'' [''1''] 0, Start ''Alice'' ''SN2'' [''2''] (seconds 20),
      Wake 0, Consume, Acquire 0, Wake 0, Wake 0, Consume, Consume, Rescan 0 ''SN9'',
      Acquire 2]"

text \<open>
  Operator inputs for the six capture pages: all lights ON, and Control Light OFF. In
  \<open>fill_ok\<close> the edit to \<^verbatim>\<open>256\<close> is one the entry refuses.
\<close>

definition fill_ok :: "field_input list" where
  "fill_ok =
     [Keys [''1'', ''12''] [''3'', ''34''], Keys [''1''] [''2'', ''20''], Keys [] [''5''],
      Keys [''2'', ''25'', ''256''] [''0'', ''00''], Presses [], Presses [BtnOFF, BtnON]]"

definition fill_fault :: "field_input list" where
  "fill_fault =
     [Keys [''12''] [''30''], Keys [''1''] [''20''], Keys [] [''5''],
      Keys [''25''] [''00''], Presses [BtnOFF], Presses []]"

text \<open>
  Station 3 is registered, its first worker wakes and puts its event into the queue,
  then the operator cancels station 3, and only then the consumer thread takes the
  event and its popup gets the semaphore and runs to the review grid.
\<close>

definition stale_actions :: "action list" where
  "stale_actions =
     [Start ''Alice'' ''SN1'' [''3''] 0, Wake 0, Cancel (Some 3) True, Consume, Acquire 0,
      Rescan 0 ''SN1'', Fill 0 fill_ok, Finish 0 [] ConfirmSave (seconds 25) (seconds 25)]"


text \<open>A check in which the operator overwrites the whole part of Voltage on the review grid.\<close>

definition edited_actions :: "action list" where
  "edited_actions =
     [Start ''Alice'' ''SN1'' [''3''] 0, Wake 0, Consume, Acquire 0, Rescan 0 ''SN1'',
      Fill 0 fill_ok, Finish 0 [EditWhole ''Voltage'' ''abc''] ConfirmSave (seconds 21) (seconds 21)]"

text \<open>Both checks of station 3: the first with Control Light OFF, the second with all ON.\<close>

definition two_checks_actions :: "action list" where
  "two_checks_actions =
     [Start ''Alice'' ''SN1'' [''3''] 0, Wake 0, Consume, Acquire 0, Rescan 0 ''SN1'',
      Fill 0 fill_fault, Finish 0 [] ConfirmSave (seconds 21) (seconds 21),
      Wake 0, Consume, Acquire 1, Rescan 1 ''SN1'',
      Fill 1 fill_ok, Finish 1 [] CloseWindow (seconds 41) (seconds 41)]"

section \<open>Theorems\<close>

subsection \<open>Time to the next checkpoint\<close>

lemma total_seconds_neg: "total_seconds d < 0 \<longleftrightarrow> d < 0"
  by (simp add: total_seconds_def divide_less_0_iff)

text \<open>
  C8. \<open>next_delta\<close> returns \<open>None\<close> exactly when \<open>done_checks\<close> has reached the number of
  offsets. Otherwise, read at wall-clock time \<open>now\<close>, it returns the duration in seconds
  from \<open>now\<close> to \<open>start + CHECKPOINTS[done_checks]\<close>, and that duration is negative
  when the checkpoint is overdue.
\<close>

theorem next_delta_spec:
  "(next_delta td now = None \<longleftrightarrow> length CHECKPOINTS \<le> done_checks td) \<and>
   (done_checks td < length CHECKPOINTS \<longrightarrow>
      next_delta td now
        = Some (total_seconds (start td + seconds (CHECKPOINTS ! done_checks td) - now))) \<and>
   (done_checks td < length CHECKPOINTS \<and>
    start td + seconds (CHECKPOINTS ! done_checks td) < now \<longrightarrow>
      (\<exists>d. next_delta td now = Some d \<and> d < 0))"
  by (simp add: next_delta_def Let_def total_seconds_neg)

theorem next_delta_spec_witness:
  "done_checks (TimerData_init ''SN1'' 3 ''Alice'' 0\<lparr>done_checks := 1\<rparr>) < length CHECKPOINTS \<and>
   start (TimerData_init ''SN1'' 3 ''Alice'' 0\<lparr>done_checks := 1\<rparr>)
     + seconds (CHECKPOINTS ! done_checks (TimerData_init ''SN1'' 3 ''Alice'' 0\<lparr>done_checks := 1\<rparr>))
     < seconds 50 \<and>
   next_delta (TimerData_init ''SN1'' 3 ''Alice'' 0\<lparr>done_checks := 1\<rparr>) (seconds 50) = Some (- 10) \<and>
   next_delta (TimerData_init ''SN1'' 3 ''Alice'' 0\<lparr>done_checks := 2\<rparr>) (seconds 50) = None"
  using next_delta_spec [of "TimerData_init ''SN1'' 3 ''Alice'' 0\<lparr>done_checks := 1\<rparr>" "seconds 50"]
        next_delta_spec [of "TimerData_init ''SN1'' 3 ''Alice'' 0\<lparr>done_checks := 2\<rparr>" "seconds 50"]
  by (simp add: TimerData_init_def CHECKPOINTS_def seconds_def total_seconds_def)

subsection \<open>Scheduled times of the checkpoint events\<close>

text \<open>
  C1. The claim is that the event of the i-th offset carries the time
  \<open>start + offsets[i]\<close>. Evaluated on the code: a registration at \<open>t0\<close> with the
  offsets 20 and 40 delivers, once both workers have woken, the events of check 1 and
  check 2 with the scheduled times \<open>t0 + 20 s\<close> and \<open>t0 + 60 s\<close>: the second one is the
  sum of the offsets up to it, not \<open>t0 + 40 s\<close>.
\<close>

theorem worker_events_cumulative:
  "prompt_q (foldl (\<lambda>s w. worker w s) (schedule ''SN1'' 3 ''Alice'' t0 (init_state []))
               (workers (schedule ''SN1'' 3 ''Alice'' t0 (init_state []))))
     = [(''SN1'', 3, 1, t0 + seconds 20, ''Alice''), (''SN1'', 3, 2, t0 + seconds 60, ''Alice'')]"
  by (simp add: schedule_def init_state_def TimerData_init_def CHECKPOINTS_def worker_def
      sched_time_def Let_def seconds_def enumerate_eq_zip upt_rec)

subsection \<open>Cancellation\<close>

lemma retract_loop_no_match:
  "\<forall>(r, rw) \<in> set snap. cell_at rw 1 \<noteq> CInt st \<Longrightarrow> retract_loop st snap ws = ws"
  by (induction snap arbitrary: ws) auto

lemma retract_no_match:
  assumes "\<forall>rw \<in> set (drop 1 ws). cell_at rw 1 \<noteq> CInt st"
  shows "retract st ws = ws"
proof -
  have "rw \<in> set (drop 1 ws)" if "(r, rw) \<in> set (enumerate 2 (drop 1 ws))" for r rw
  proof -
    from that have "r - 2 < length (drop 1 ws)" and "rw = drop 1 ws ! (r - 2)"
      by (auto simp: in_set_enumerate_eq)
    then show ?thesis
      using nth_mem [of "r - 2" "drop 1 ws"] by simp
  qed
  with assms have "\<forall>(r, rw) \<in> set (enumerate 2 (drop 1 ws)). cell_at rw 1 \<noteq> CInt st"
    by blast
  then show ?thesis
    unfolding retract_def by (rule retract_loop_no_match)
qed

text \<open>
  C3. The claim is that after cancelling station \<open>s\<close> no row of \<open>s\<close> is left in the
  store, whatever the store holds. Evaluated on the code: station 3 is registered, the
  sheet holds the header, two rows of station 3 and one row of station 5. Cancelling
  station 3 takes it out of the registry and sets the flag of its timer, and leaves the
  header and the second row of station 3 in the sheet: the row of station 5 is the one
  that was deleted in its place.
\<close>

theorem cancel_leaves_row:
  "\<exists>s'. cancel (Some 3) True
           ((schedule ''SN1'' 3 ''Alice'' 0 (init_state []))
              \<lparr>sheet := [header_row, logged_row ''SN1'' 3 1, logged_row ''SN1'' 3 2,
                         logged_row ''SN2'' 5 1]\<rparr>) = Ok s'
        \<and> timers s' 3 = None \<and> cancelled (heap s' 0)
        \<and> sheet s' = [header_row, logged_row ''SN1'' 3 2]"
  by (simp add: cancel_def schedule_def init_state_def show_dialog_def Let_def retract_def
      enumerate_eq_zip upt_rec cell_at_def logged_row_def header_row_def delete_rows_def)

subsection \<open>Registration\<close>

text \<open>
  C4. Let the operator have entered a technician and scanned a station number that the
  loop of \<open>start\<close> accepts, \<open>st\<close>. If the registry holds for \<open>st\<close> a timer that is not
  cancelled and has checks left, \<open>start\<close> shows the error box Busy and changes nothing
  but the dialogs shown. Otherwise (no timer for \<open>st\<close>, or a cancelled or completed one)
  it runs \<open>schedule\<close>: a new timer, started now with no check done, is stored in the
  registry under \<open>st\<close>.
\<close>

theorem start_busy_or_registers:
  assumes "strip tech_var \<noteq> []" and "station_loop N st_texts = (Some st, ds)"
  shows "((\<exists>a. timers s st = Some a \<and> done_checks (heap s a) < length CHECKPOINTS
                 \<and> \<not> cancelled (heap s a)) \<longrightarrow>
            start_cmd N tech_var sn_text st_texts now s
              = Some (s\<lparr>shown := shown s @ ScanSerial # ds @ [ErrorBox ''Busy'']\<rparr>)) \<and>
         (\<not> (\<exists>a. timers s st = Some a \<and> done_checks (heap s a) < length CHECKPOINTS
                 \<and> \<not> cancelled (heap s a)) \<longrightarrow>
            (\<exists>s'. start_cmd N tech_var sn_text st_texts now s = Some s'
               \<and> s' = schedule (strip sn_text) st (strip tech_var) now
                        (s\<lparr>shown := shown s @ ScanSerial # ds\<rparr>)
               \<and> timers s' st = Some (next_ref s)
               \<and> heap s' (next_ref s) = TimerData_init (strip sn_text) st (strip tech_var) now
               \<and> (\<forall>st'. st' \<noteq> st \<longrightarrow> timers s' st' = timers s st')))"
  using assms
  by (auto simp add: start_cmd_def show_dialog_def Let_def schedule_def split: option.splits)

theorem start_busy_or_registers_witness:
  "strip ''Alice'' \<noteq> [] \<and> station_loop 8 [''x'', ''3''] = (Some 3, [ScanStation, ErrorBox ''Invalid'', ScanStation]) \<and>
   timers (init_state []) 3 = None \<and>
   (\<exists>s'. start_cmd 8 ''Alice'' ''SN1'' [''x'', ''3''] 0 (init_state []) = Some s'
      \<and> timers s' 3 = Some 0 \<and> heap s' 0 = TimerData_init ''SN1'' 3 ''Alice'' 0) \<and>
   timers (schedule ''SN1'' 3 ''Alice'' 0 (init_state [])) 3 = Some 0 \<and>
   done_checks (heap (schedule ''SN1'' 3 ''Alice'' 0 (init_state [])) 0) < length CHECKPOINTS \<and>
   \<not> cancelled (heap (schedule ''SN1'' 3 ''Alice'' 0 (init_state [])) 0) \<and>
   start_cmd 8 ''Bob'' ''SN2'' [''x'', ''3''] 5 (schedule ''SN1'' 3 ''Alice'' 0 (init_state []))
     = Some ((schedule ''SN1'' 3 ''Alice'' 0 (init_state []))
               \<lparr>shown := [ScanSerial, ScanStation, ErrorBox ''Invalid'', ScanStation,
                          ErrorBox ''Busy'']\<rparr>)"
proof -
  have tc: "strip ''Alice'' \<noteq> []" "strip ''Bob'' \<noteq> []" "strip ''SN1'' = ''SN1''"
    "strip ''Alice'' = ''Alice''"
    by (simp_all add: strip_def isspace_def)
  have lp: "station_loop 8 [''x'', ''3'']
              = (Some 3, [ScanStation, ErrorBox ''Invalid'', ScanStation])"
    by (simp add: strip_def isspace_def isdigit_def isdigit_char_def py_int_def)
  have reg: "timers (schedule ''SN1'' 3 ''Alice'' 0 (init_state [])) 3 = Some 0"
    "done_checks (heap (schedule ''SN1'' 3 ''Alice'' 0 (init_state [])) 0) < length CHECKPOINTS"
    "\<not> cancelled (heap (schedule ''SN1'' 3 ''Alice'' 0 (init_state [])) 0)"
    "shown (schedule ''SN1'' 3 ''Alice'' 0 (init_state [])) = []"
    by (simp_all add: schedule_def init_state_def Let_def TimerData_init_def CHECKPOINTS_def)
  have free: "timers (init_state []) 3 = None" "next_ref (init_state []) = 0"
    by (simp_all add: init_state_def)
  show ?thesis
    using start_busy_or_registers [OF tc(1) lp, of "init_state []" "''SN1''" 0]
      start_busy_or_registers [OF tc(2) lp, of "schedule ''SN1'' 3 ''Alice'' 0 (init_state [])"
        "''SN2''" 5]
    by (simp add: tc lp reg free del: station_loop.simps)
qed

subsection \<open>The semaphore\<close>

lemma filter_update_count:
  "i < length xs \<Longrightarrow>
     length (filter P (xs[i := y])) + (if P (xs ! i) then 1 else 0)
       = length (filter P xs) + (if P y then 1 else 0)"
proof (induction xs arbitrary: i)
  case Nil
  then show ?case by simp
next
  case (Cons x xs)
  show ?case
  proof (cases i)
    case 0
    then show ?thesis by simp
  next
    case (Suc j)
    with Cons.prems have "j < length xs" by simp
    from Cons.IH [OF this] Suc show ?thesis by simp
  qed
qed

lemma in_progress_set_phase:
  assumes "i < length (popups s)"
  shows "length (in_progress (set_phase i ph s)) + (if holding (snd (popups s ! i)) then 1 else 0)
           = length (in_progress s) + (if holding ph then 1 else 0)"
  using filter_update_count [OF assms, of "holding \<circ> snd" "(fst (popups s ! i), ph)"]
  by (simp add: in_progress_def set_phase_def)

lemma lock_inv_init: "lock_inv (init_state tpl)"
  by (simp add: lock_inv_def init_state_def in_progress_def)

lemma lock_inv_start:
  assumes "start_cmd N tv sn sts now s = Some s'" and "lock_inv s"
  shows "lock_inv s'"
proof -
  from assms(1) have "popups s' = popups s \<and> prompt_lock s' = prompt_lock s"
    by (auto simp: start_cmd_def show_dialog_def schedule_def Let_def
        split: if_splits prod.splits option.splits)
  with assms(2) show ?thesis by (simp add: lock_inv_def in_progress_def)
qed

lemma lock_inv_cancel:
  assumes "cancel sel yes s = r" and "r = Ok s' \<or> r = Raised e s'" and "lock_inv s"
  shows "lock_inv s'"
proof -
  from assms(1,2) have "popups s' = popups s \<and> prompt_lock s' = prompt_lock s"
    by (auto simp: cancel_def show_dialog_def Let_def split: if_splits option.splits)
  with assms(3) show ?thesis by (simp add: lock_inv_def in_progress_def)
qed

lemma lock_inv_worker: "lock_inv s \<Longrightarrow> lock_inv (worker w (s\<lparr>workers := ws\<rparr>))"
  by (cases w) (simp add: worker_def lock_inv_def in_progress_def)

lemma lock_inv_consume:
  assumes "consume s = Some s'" and "lock_inv s"
  shows "lock_inv s'"
  using assms
  by (auto simp: consume_def prompt_user_def lock_inv_def in_progress_def split: list.splits)

lemma lock_inv_acquire:
  assumes "popup_acquire i s = Some s'" and "lock_inv s"
  shows "lock_inv s' \<and> in_progress s = [] \<and> length (in_progress s') = 1"
proof -
  from assms(1) have ph: "i < length (popups s)" "snd (popups s ! i) = Spawned" "0 < prompt_lock s"
    by (auto simp: popup_acquire_def in_phase_def split: if_splits)
  obtain sn st idx sched tc where ev: "fst (popups s ! i) = (sn, st, idx, sched, tc)"
    by (cases "fst (popups s ! i)")
  from assms(1) ph ev have s': "s' = show_dialog (RescanSerial st)
      (set_phase i Verify (s\<lparr>prompt_lock := prompt_lock s - 1\<rparr>))"
    by (simp add: popup_acquire_def in_phase_def)
  have "length (in_progress (set_phase i Verify (s\<lparr>prompt_lock := prompt_lock s - 1\<rparr>)))
          = length (in_progress s) + 1"
    using in_progress_set_phase [of i "s\<lparr>prompt_lock := prompt_lock s - 1\<rparr>" Verify] ph
    by (simp add: in_progress_def)
  then have cnt: "length (in_progress s') = length (in_progress s) + 1"
    by (simp add: s' show_dialog_def in_progress_def set_phase_def)
  have lk: "prompt_lock s' = prompt_lock s - 1"
    by (simp add: s' show_dialog_def set_phase_def)
  from assms(2) ph(3) have "length (in_progress s) = 0"
    unfolding lock_inv_def by arith
  with assms(2) ph(3) cnt lk show ?thesis
    unfolding lock_inv_def by simp
qed

lemma lock_inv_verify:
  assumes "popup_verify i typed s = Some s'" and "lock_inv s"
  shows "lock_inv s'"
proof -
  from assms(1) have ph: "i < length (popups s)" "snd (popups s ! i) = Verify"
    by (auto simp: popup_verify_def in_phase_def split: if_splits)
  obtain sn st idx sched tc where ev: "fst (popups s ! i) = (sn, st, idx, sched, tc)"
    by (cases "fst (popups s ! i)")
  show ?thesis
  proof (cases "strip typed \<noteq> sn")
    case True
    with assms(1) ph ev have s': "s' = set_phase i Returned (release (show_dialog (ErrorBox ''Mismatch'') s))"
      by (simp add: popup_verify_def in_phase_def)
    have "length (in_progress s') + 1 = length (in_progress s)"
      using in_progress_set_phase [of i "release (show_dialog (ErrorBox ''Mismatch'') s)" Returned] ph
      by (simp add: s' release_def show_dialog_def in_progress_def)
    moreover have "prompt_lock s' = prompt_lock s + 1"
      by (simp add: s' release_def show_dialog_def set_phase_def)
    ultimately show ?thesis using assms(2) unfolding lock_inv_def by arith
  next
    case False
    with assms(1) ph ev have s': "s' = show_dialog (EntryWindow st idx) (set_phase i Capture s)"
      by (simp add: popup_verify_def in_phase_def)
    have "length (in_progress (set_phase i Capture s)) = length (in_progress s)"
      using in_progress_set_phase [of i s Capture] ph by simp
    then have "length (in_progress s') = length (in_progress s)"
      by (simp add: s' show_dialog_def in_progress_def)
    moreover have "prompt_lock s' = prompt_lock s"
      by (simp add: s' show_dialog_def set_phase_def)
    ultimately show ?thesis using assms(2) unfolding lock_inv_def by arith
  qed
qed

lemma lock_inv_capture:
  assumes "popup_capture i ins s = Some s'" and "lock_inv s"
  shows "lock_inv s'"
proof -
  from assms(1) have ph: "i < length (popups s)" "snd (popups s ! i) = Capture"
    by (auto simp: popup_capture_def in_phase_def split: if_splits)
  obtain sn st idx sched tc where ev: "fst (popups s ! i) = (sn, st, idx, sched, tc)"
    by (cases "fst (popups s ! i)")
  from assms(1) ph obtain es where es: "ask fields ins [] = Some es"
    by (auto simp: popup_capture_def in_phase_def split: option.splits)
  have "\<exists>ph'. holding ph' \<and> popups s' = popups (set_phase i ph' s) \<and> prompt_lock s' = prompt_lock s"
  proof (cases "review fields es")
    case (Inl e)
    with assms(1) ph es have "s' = set_phase i (Died e) s"
      by (simp add: popup_capture_def in_phase_def)
    then show ?thesis by (intro exI [of _ "Died e"]) (simp add: set_phase_def)
  next
    case (Inr w)
    with assms(1) ph es ev have "s' = show_dialog (ReviewWindow st idx) (set_phase i (Review w) s)"
      by (simp add: popup_capture_def in_phase_def)
    then show ?thesis
      by (intro exI [of _ "Review w"]) (simp add: set_phase_def show_dialog_def)
  qed
  then obtain ph' where ph': "holding ph'"
    and pp: "popups s' = popups (set_phase i ph' s)" and lk: "prompt_lock s' = prompt_lock s"
    by blast
  have "length (in_progress (set_phase i ph' s)) = length (in_progress s)"
    using in_progress_set_phase [of i s ph'] ph ph' by simp
  with pp have "length (in_progress s') = length (in_progress s)"
    by (simp add: in_progress_def)
  with lk assms(2) show ?thesis by (simp add: lock_inv_def)
qed

lemma save_frame:
  assumes "save ev w now1 now2 s = Ok s'"
  shows "popups s' = popups s \<and> prompt_lock s' = prompt_lock s + 1"
  using assms
  by (auto simp: save_def release_def write_excel_def Let_def
      split: prod.splits sum.splits option.splits)

lemma save_raised:
  assumes "save ev w now1 now2 s = Raised e s'"
  shows "s' = s"
  using assms
  by (auto simp: save_def Let_def split: prod.splits sum.splits option.splits)

lemma review_command_save: "review_command act ev w now1 now2 s = save ev w now1 now2 s"
  by (cases act) (simp_all add: review_command_def)

lemma lock_inv_finish:
  assumes "popup_finish i edits act now1 now2 s = Some s'" and "lock_inv s"
  shows "lock_inv s'"
proof -
  from assms(1) obtain w where ph: "i < length (popups s)" "snd (popups s ! i) = Review w"
    by (auto simp: popup_finish_def split: if_splits phase.splits)
  show ?thesis
  proof (cases "save (fst (popups s ! i)) (foldl apply_edit w edits) now1 now2 s")
    case (Ok s1)
    with assms(1) ph have s': "s' = set_phase i Returned s1"
      by (simp add: popup_finish_def review_command_save)
    from save_frame [OF Ok] have fr: "popups s1 = popups s" "prompt_lock s1 = prompt_lock s + 1"
      by simp_all
    have "length (in_progress (set_phase i Returned s1)) + 1 = length (in_progress s1)"
      using in_progress_set_phase [of i s1 Returned] ph fr by simp
    then have "length (in_progress s') + 1 = length (in_progress s)"
      using fr by (simp add: s' in_progress_def)
    moreover have "prompt_lock s' = prompt_lock s + 1"
      using fr by (simp add: s' set_phase_def)
    ultimately show ?thesis using assms(2) unfolding lock_inv_def by arith
  next
    case (Raised e s1)
    with assms(1) ph have "s' = s1"
      by (simp add: popup_finish_def review_command_save)
    with save_raised [OF Raised] assms(2) show ?thesis by simp
  qed
qed

lemma lock_inv_step:
  assumes "step N a s = Some s'" and "lock_inv s"
  shows "lock_inv s'"
proof (cases a)
  case (Start tv sn sts now)
  with assms show ?thesis by (simp add: lock_inv_start)
next
  case (Cancel sel yes)
  with assms show ?thesis
    by (cases "cancel sel yes s") (auto intro: lock_inv_cancel)
next
  case (Wake i)
  with assms show ?thesis by (auto simp: lock_inv_worker split: if_splits)
next
  case Consume
  with assms show ?thesis by (simp add: lock_inv_consume)
next
  case (Acquire i)
  with assms show ?thesis by (simp add: lock_inv_acquire)
next
  case (Rescan i typed)
  with assms show ?thesis by (simp add: lock_inv_verify)
next
  case (Fill i ins)
  with assms show ?thesis by (simp add: lock_inv_capture)
next
  case (Finish i edits act now1 now2)
  with assms show ?thesis by (simp add: lock_inv_finish)
qed

lemma lock_inv_run:
  "run N acts s = Some s' \<Longrightarrow> lock_inv s \<Longrightarrow> lock_inv s'"
  by (induction acts arbitrary: s) (auto split: option.splits dest: lock_inv_step)


subsection \<open>The order of the events\<close>

lemma map_update_same: "f (xs ! i) = v \<Longrightarrow> (map f xs)[i := v] = map f xs"
  by (induction xs arbitrary: i) (auto split: nat.splits)

lemma handed_step:
  assumes "step N a s = Some s'"
  shows "prefix (handed s) (handed s')"
proof (cases a)
  case (Start tv sn sts now)
  with assms have "popups s' = popups s \<and> prompt_q s' = prompt_q s"
    by (auto simp: start_cmd_def show_dialog_def schedule_def Let_def
        split: if_splits prod.splits option.splits)
  then show ?thesis by (simp add: handed_def)
next
  case (Cancel sel yes)
  with assms have "popups s' = popups s \<and> prompt_q s' = prompt_q s"
    by (auto simp: cancel_def show_dialog_def Let_def split: if_splits option.splits)
  then show ?thesis by (simp add: handed_def)
next
  case (Wake i)
  with assms have "s' = worker (workers s ! i)
      (s\<lparr>workers := take i (workers s) @ drop (Suc i) (workers s)\<rparr>)"
    by (auto split: if_splits)
  then show ?thesis by (cases "workers s ! i") (simp add: worker_def handed_def)
next
  case Consume
  with assms show ?thesis
    by (auto simp: consume_def prompt_user_def handed_def split: list.splits)
next
  case (Acquire i)
  with assms have "prompt_q s' = prompt_q s \<and> map fst (popups s') = map fst (popups s)"
    by (auto simp: popup_acquire_def show_dialog_def set_phase_def map_update
        map_update_same split: if_splits prod.splits)
  then show ?thesis by (simp add: handed_def)
next
  case (Rescan i typed)
  with assms have "prompt_q s' = prompt_q s \<and> map fst (popups s') = map fst (popups s)"
    by (auto simp: popup_verify_def show_dialog_def release_def set_phase_def map_update
        map_update_same split: if_splits prod.splits)
  then show ?thesis by (simp add: handed_def)
next
  case (Fill i ins)
  with assms have "prompt_q s' = prompt_q s \<and> map fst (popups s') = map fst (popups s)"
    by (auto simp: popup_capture_def show_dialog_def set_phase_def map_update
        map_update_same split: if_splits prod.splits option.splits sum.splits)
  then show ?thesis by (simp add: handed_def)
next
  case (Finish i edits act now1 now2)
  with assms have "prompt_q s' = prompt_q s \<and> map fst (popups s') = map fst (popups s)"
    by (auto simp: popup_finish_def review_command_save save_def Let_def release_def
        write_excel_def set_phase_def map_update map_update_same
        split: if_splits prod.splits option.splits sum.splits phase.splits result.splits)
  then show ?thesis by (simp add: handed_def)
qed

lemma handed_run:
  "run N acts s = Some s' \<Longrightarrow> prefix (handed s) (handed s')"
proof (induction acts arbitrary: s)
  case Nil
  then show ?case by simp
next
  case (Cons a acts)
  then obtain s1 where "step N a s = Some s1" and "run N acts s1 = Some s'"
    by (auto split: option.splits)
  with Cons.IH [of s1] handed_step [of N a s s1] show ?case
    by (auto intro: prefix_order.trans)
qed


lemmas run_defs = start_cmd_def show_dialog_def schedule_def Let_def
  strip_def isspace_def isdigit_def isdigit_char_def py_int_def init_state_def TimerData_init_def
  CHECKPOINTS_def enumerate_eq_zip upt_rec worker_def sched_time_def seconds_def consume_def
  prompt_user_def popup_acquire_def in_phase_def set_phase_def popup_verify_def release_def
  cancel_def

text \<open>
  C5. The claim is that at most one flow is in progress at a time and that the queued
  events are served strictly in the order they were enqueued. Evaluated on the code, in
  the run \<open>race_actions\<close>: the events are put into the queue in the order check 1 of
  station 1, check 2 of station 1, check 1 of station 2, and the consumer thread takes
  them in that order. At the end of the run the popup of the third event is at its
  rescan dialog, after the prompts for station 1 and station 2, and the popup of the
  second event is still waiting: \<^verbatim>\<open>prompt_user\<close> starts one thread per event, and the
  threads are served in the order they get the semaphore, not in the order of the queue.
\<close>

theorem serve_order_race:
  "map_option handed (run 8 race_actions (init_state [header_row]))
     = Some [(''SN1'', 1, 1, seconds 20, ''Alice''), (''SN1'', 1, 2, seconds 60, ''Alice''),
             (''SN2'', 2, 1, seconds 40, ''Alice'')] \<and>
   map_option popups (run 8 race_actions (init_state [header_row]))
     = Some [((''SN1'', 1, 1, seconds 20, ''Alice''), Returned),
             ((''SN1'', 1, 2, seconds 60, ''Alice''), Spawned),
             ((''SN2'', 2, 1, seconds 40, ''Alice''), Verify)] \<and>
   map_option (prompted \<circ> shown) (run 8 race_actions (init_state [header_row])) = Some [1, 2]"
  by (simp add: race_actions_def run_defs handed_def)

text \<open>
  The part of the serialisation that holds in every run: in every state the program
  reaches, at most one popup is in progress (has taken the semaphore and not released
  it: at the rescan dialog, on the capture pages or on the review grid); a popup gets
  the semaphore, and shows its prompt, only when no popup is in progress; the consumer
  thread takes the head of the queue, and every step keeps the order of the events
  taken and waiting.
\<close>

lemma serializer_one_flow:
  assumes "run N acts (init_state tpl) = Some s"
  shows "length (in_progress s) \<le> 1 \<and>
         (\<forall>i s'. popup_acquire i s = Some s' \<longrightarrow>
            in_progress s = [] \<and> length (in_progress s') = 1) \<and>
         (\<forall>s'. consume s = Some s' \<longrightarrow>
            (\<exists>ev q. prompt_q s = ev # q \<and> prompt_q s' = q \<and> popups s' = popups s @ [(ev, Spawned)])) \<and>
         (\<forall>a s'. step N a s = Some s' \<longrightarrow> prefix (handed s) (handed s'))"
proof -
  from lock_inv_run [OF assms lock_inv_init] have inv: "lock_inv s" .
  then have "length (in_progress s) \<le> 1"
    unfolding lock_inv_def by arith
  moreover have "in_progress s = [] \<and> length (in_progress s') = 1"
    if "popup_acquire i s = Some s'" for i s'
    using lock_inv_acquire [OF that inv] by simp
  moreover have "\<exists>ev q. prompt_q s = ev # q \<and> prompt_q s' = q \<and> popups s' = popups s @ [(ev, Spawned)]"
    if "consume s = Some s'" for s'
    using that by (auto simp: consume_def prompt_user_def split: list.splits)
  moreover have "prefix (handed s) (handed s')" if "step N a s = Some s'" for a s'
    using that by (rule handed_step)
  ultimately show ?thesis by blast
qed

lemma serializer_one_flow_example:
  "\<exists>s7 s8 s10 s11. run 8 (take 7 race_actions) (init_state [header_row]) = Some s7
      \<and> consume s7 = Some s8
      \<and> run 8 (take 10 race_actions) (init_state [header_row]) = Some s10
      \<and> popup_acquire 2 s10 = Some s11 \<and> step 8 (Acquire 2) s10 = Some s11
      \<and> length (in_progress s7) \<le> 1 \<and> length (in_progress s10) \<le> 1
      \<and> in_progress s10 = [] \<and> length (in_progress s11) = 1
      \<and> (\<exists>ev q. prompt_q s7 = ev # q \<and> prompt_q s8 = q \<and> popups s8 = popups s7 @ [(ev, Spawned)])
      \<and> prefix (handed s10) (handed s11)"
proof -
  have "\<exists>s7 s8 s10 s11. run 8 (take 7 race_actions) (init_state [header_row]) = Some s7
      \<and> consume s7 = Some s8
      \<and> run 8 (take 10 race_actions) (init_state [header_row]) = Some s10
      \<and> popup_acquire 2 s10 = Some s11"
    by (simp add: race_actions_def run_defs)
  then obtain s7 s8 s10 s11
    where r7: "run 8 (take 7 race_actions) (init_state [header_row]) = Some s7"
      and c: "consume s7 = Some s8"
      and r10: "run 8 (take 10 race_actions) (init_state [header_row]) = Some s10"
      and a: "popup_acquire 2 s10 = Some s11"
    by blast
  from a have st: "step 8 (Acquire 2) s10 = Some s11" by simp
  from serializer_one_flow [OF r7] c
  have "length (in_progress s7) \<le> 1
          \<and> (\<exists>ev q. prompt_q s7 = ev # q \<and> prompt_q s8 = q \<and> popups s8 = popups s7 @ [(ev, Spawned)])"
    by blast
  moreover from serializer_one_flow [OF r10] a st
  have "length (in_progress s10) \<le> 1 \<and> in_progress s10 = [] \<and> length (in_progress s11) = 1
          \<and> prefix (handed s10) (handed s11)"
    by blast
  ultimately show ?thesis using r7 c r10 a st by blast
qed

subsection \<open>Evaluating whole runs\<close>

lemma char_of_digits:
  "char_of (48::nat) = CHR ''0''" "char_of (49::nat) = CHR ''1''" "char_of (50::nat) = CHR ''2''"
  "char_of (51::nat) = CHR ''3''" "char_of (52::nat) = CHR ''4''" "char_of (53::nat) = CHR ''5''"
  "char_of (54::nat) = CHR ''6''" "char_of (55::nat) = CHR ''7''" "char_of (56::nat) = CHR ''8''"
  "char_of (57::nat) = CHR ''9''"
  by code_simp+

lemma replicate_2: "replicate 2 x = [x, x]"
  by (simp add: numeral_2_eq_2)

lemmas flow_defs = char_of_digits replicate_2 retract_def cell_at_def delete_rows_def header_row_def popup_capture_def popup_finish_def review_command_def save_def fields_def
  vcmd_def zfill_def apply_edit_def write_excel_def strftime_HMS_def two_digits_def
  digit_char_def int_trunc_seconds_def

text \<open>
  C2. The claim is that an event whose station was cancelled after it was enqueued is
  discarded when it is dequeued, without a prompt. Evaluated on the code, in the run
  \<open>stale_actions\<close>: after the cancellation the registry has no timer for station 3,
  the consumer thread hands the event to a popup all the same, and the popup shows the
  rescan prompt for station 3 and is in progress. Carried on to the review grid and
  Confirm, \<^verbatim>\<open>save\<close> raises on \<^verbatim>\<open>timers[station]\<close>: no row is appended, and the
  semaphore stays taken.
\<close>

theorem stale_event_prompts:
  "map_option (prompted \<circ> shown) (run 8 (take 5 stale_actions) (init_state [header_row])) = Some [3] \<and>
   Option.bind (run 8 (take 5 stale_actions) (init_state [header_row])) (timer_of 3) = None \<and>
   map_option in_progress (run 8 (take 5 stale_actions) (init_state [header_row]))
     = Some [((''SN1'', 3, 1, seconds 20, ''Alice''), Verify)] \<and>
   map_option sheet (run 8 stale_actions (init_state [header_row])) = Some [header_row] \<and>
   map_option prompt_lock (run 8 stale_actions (init_state [header_row])) = Some 0"
  by (simp add: stale_actions_def fill_ok_def run_defs flow_defs timer_of_def in_progress_def)

subsection \<open>The persisted measurement fields\<close>

text \<open>
  What the capture pages alone guarantee: an entry of a capture page always holds a
  text its \<^verbatim>\<open>validatecommand\<close> accepts, and \<^verbatim>\<open>zfill(2)\<close> of such a text is two
  digits.
\<close>

lemma vcmd_type_keys: "vcmd v \<Longrightarrow> vcmd (type_keys ps v)"
  by (induction ps arbitrary: v) simp_all

lemma isdigit_char_not_sign: "isdigit_char c \<Longrightarrow> c \<noteq> CHR ''+'' \<and> c \<noteq> CHR ''-''"
  by (auto simp: isdigit_char_def)

lemma isdigit_char_zero: "isdigit_char (CHR ''0'')"
  by (simp add: isdigit_char_def)

lemma zfill_vcmd:
  assumes "vcmd P"
  shows "length (zfill 2 P) = 2 \<and> list_all isdigit_char (zfill 2 P)"
proof (cases P)
  case Nil
  then show ?thesis by (simp add: zfill_def isdigit_char_zero numeral_2_eq_2)
next
  case (Cons c r)
  with assms have d: "isdigit_char c" "list_all isdigit_char r" "length r \<le> 1"
    by (simp_all add: vcmd_def isdigit_def)
  show ?thesis
  proof (cases r)
    case Nil
    with Cons d isdigit_char_not_sign [OF d(1)] show ?thesis
      by (simp add: zfill_def isdigit_char_zero)
  next
    case (Cons c' r')
    with d have "r' = []" by simp
    with Cons \<open>P = c # r\<close> d show ?thesis by (simp add: zfill_def)
  qed
qed

lemma captured_digits:
  "list_all isdigit_char (zfill 2 (type_keys ps [])) \<and> length (zfill 2 (type_keys ps [])) = 2"
  using zfill_vcmd [OF vcmd_type_keys [of "[]" ps]] by (simp add: vcmd_def)

text \<open>
  C9. The claim is that every numeric field is persisted as two digits, a dot and two
  digits, for every value the operator can enter in the capture and review steps.
  Evaluated on the code, in the run \<open>edited_actions\<close>: the entries of the review grid
  accept any text, and with the whole part of Voltage overwritten by \<^verbatim>\<open>abc\<close> the row
  appended holds \<^verbatim>\<open>abc.34\<close> for Voltage.
\<close>

theorem review_edit_unvalidated:
  "map_option sheet (run 8 edited_actions (init_state [header_row]))
     = Some [header_row,
             [CStr ''SN1'', CInt 3, CInt 1, CStr ''00:00:20'', CStr ''00:00:21'', CInt 1,
              CStr ''abc.34'', CStr ''01.20'', CStr ''00.05'', CStr ''25.00'', CStr ''ON'',
              CStr ''ON'', CStr ''Alice'']]"
  by (simp add: edited_actions_def fill_ok_def run_defs flow_defs)

subsection \<open>The review grid and the commit\<close>

lemma abs_int_trunc_seconds: "\<bar>int_trunc_seconds d\<bar> = \<bar>d\<bar> div 1000000"
  by (cases "d = 0") (simp_all add: int_trunc_seconds_def abs_mult)

lemma shape_fields_explicit:
  assumes "shape fields w"
  obtains a1 b1 a2 b2 a3 b3 a4 b4 v5 v6 where
    "w = [(''Voltage'', Digits a1 b1), (''Current'', Digits a2 b2),
          (''Clamp Current'', Digits a3 b3), (''Temperature'', Digits a4 b4),
          (''Control Light'', Choice v5), (''Load Bank Light'', Choice v6)]"
    and "v5 = ''ON'' \<or> v5 = ''OFF''" and "v6 = ''ON'' \<or> v6 = ''OFF''"
proof -
  have dig: "\<exists>a b. e = (l, Digits a b)" if "fst e = l" "fits Digit (snd e)" for e l
    using that by (cases e, cases "snd e") auto
  have tog: "\<exists>v. e = (l, Choice v) \<and> (v = ''ON'' \<or> v = ''OFF'')"
    if "fst e = l" "fits Toggle (snd e)" for e l
    using that by (cases e, cases "snd e") auto
  from assms obtain e1 e2 e3 e4 e5 e6 where w: "w = [e1, e2, e3, e4, e5, e6]"
    and f: "fst e1 = ''Voltage''" "fits Digit (snd e1)" "fst e2 = ''Current''" "fits Digit (snd e2)"
      "fst e3 = ''Clamp Current''" "fits Digit (snd e3)" "fst e4 = ''Temperature''"
      "fits Digit (snd e4)" "fst e5 = ''Control Light''" "fits Toggle (snd e5)"
      "fst e6 = ''Load Bank Light''" "fits Toggle (snd e6)"
    unfolding shape_def fields_def by (auto simp: list_all2_Cons1)
  from dig [OF f(1,2)] dig [OF f(3,4)] dig [OF f(5,6)] dig [OF f(7,8)] tog [OF f(9,10)]
    tog [OF f(11,12)] w that
  show thesis by blast
qed

lemma shape_field_cells:
  assumes "shape fields w"
  shows "\<exists>cells. field_cells fields w = Inr cells"
proof -
  from assms obtain a1 b1 a2 b2 a3 b3 a4 b4 v5 v6 where
    "w = [(''Voltage'', Digits a1 b1), (''Current'', Digits a2 b2),
          (''Clamp Current'', Digits a3 b3), (''Temperature'', Digits a4 b4),
          (''Control Light'', Choice v5), (''Load Bank Light'', Choice v6)]"
    by (rule shape_fields_explicit)
  then show ?thesis by (simp add: fields_def)
qed

lemma shape_any_off:
  assumes "shape fields w"
  shows "any_off w [''Control Light'', ''Load Bank Light'']
           = Inr (map_of w ''Control Light'' = Some (Choice ''OFF'')
                  \<or> map_of w ''Load Bank Light'' = Some (Choice ''OFF''))"
proof -
  from assms obtain a1 b1 a2 b2 a3 b3 a4 b4 v5 v6 where
    "w = [(''Voltage'', Digits a1 b1), (''Current'', Digits a2 b2),
          (''Clamp Current'', Digits a3 b3), (''Temperature'', Digits a4 b4),
          (''Control Light'', Choice v5), (''Load Bank Light'', Choice v6)]"
    by (rule shape_fields_explicit)
  then show ?thesis by simp
qed




lemma press_on_off: "v = ''ON'' \<or> v = ''OFF'' \<Longrightarrow> press bs v = ''ON'' \<or> press bs v = ''OFF''"
  by (induction bs v rule: press.induct) simp_all

lemma ask_shape:
  "ask fs ins acc = Some es \<Longrightarrow> \<exists>new. es = acc @ new \<and> shape fs new"
proof (induction fs ins acc rule: ask.induct)
  case (1 ins entries)
  then show ?case by (simp add: shape_def)
next
  case (2 label fs ps qs ins entries)
  then obtain new where "es = (entries @ [(label, Digits (type_keys ps []) (type_keys qs []))]) @ new"
    and "shape fs new" by auto
  then show ?case
    by (intro exI [of _ "(label, Digits (type_keys ps []) (type_keys qs [])) # new"])
      (simp add: shape_def)
next
  case (3 label fs bs ins entries)
  then obtain new where "es = (entries @ [(label, Choice (press bs ''ON''))]) @ new"
    and "shape fs new" by auto
  then show ?case
    using press_on_off [of "''ON''" bs]
    by (intro exI [of _ "(label, Choice (press bs ''ON'')) # new"]) (simp add: shape_def)
qed simp_all

lemma review_shape:
  assumes "shape fields es"
  shows "review fields es = Inr es"
proof -
  from assms obtain a1 b1 a2 b2 a3 b3 a4 b4 v5 v6 where
    "es = [(''Voltage'', Digits a1 b1), (''Current'', Digits a2 b2),
          (''Clamp Current'', Digits a3 b3), (''Temperature'', Digits a4 b4),
          (''Control Light'', Choice v5), (''Load Bank Light'', Choice v6)]"
    by (rule shape_fields_explicit)
  then show ?thesis by (simp add: fields_def)
qed

lemma capture_reaches_review:
  assumes "popup_capture i ins s = Some s'"
  shows "\<exists>w. snd (popups s' ! i) = Review w \<and> shape fields w"
proof -
  from assms have ph: "i < length (popups s)" "snd (popups s ! i) = Capture"
    by (auto simp: popup_capture_def in_phase_def split: if_splits)
  from assms ph obtain es where es: "ask fields ins [] = Some es"
    by (auto simp: popup_capture_def in_phase_def split: option.splits)
  from ask_shape [OF es] have sh: "shape fields es" by simp
  with assms ph es review_shape [OF sh] show ?thesis
    by (auto simp: popup_capture_def in_phase_def set_phase_def show_dialog_def
        split: prod.splits)
qed

lemma save_ok:
  assumes "shape fields w" and "timers s st = Some a"
  shows "\<exists>cells. field_cells fields w = Inr cells \<and>
     save (sn, st, idx, sched, tc) w now1 now2 s
       = Ok (s\<lparr>heap := (heap s)(a := (heap s a)
                 \<lparr>error := (map_of w ''Control Light'' = Some (Choice ''OFF'')
                            \<or> map_of w ''Load Bank Light'' = Some (Choice ''OFF'')),
                  done_checks := done_checks (heap s a) + 1\<rparr>),
              sheet := sheet s @ [[CStr sn, CInt st, CInt (int idx), CStr (strftime_HMS sched),
                                   CStr (strftime_HMS now1), CInt (\<bar>now2 - sched\<bar> div 1000000)]
                                  @ cells @ [CStr tc]],
              prompt_lock := prompt_lock s + 1\<rparr>)"
proof -
  from shape_field_cells [OF assms(1)] obtain cells where c: "field_cells fields w = Inr cells" ..
  have "save (sn, st, idx, sched, tc) w now1 now2 s = Ok (s\<lparr>heap := (heap s)(a := (heap s a)
                 \<lparr>error := (map_of w ''Control Light'' = Some (Choice ''OFF'')
                            \<or> map_of w ''Load Bank Light'' = Some (Choice ''OFF'')),
                  done_checks := done_checks (heap s a) + 1\<rparr>),
              sheet := sheet s @ [[CStr sn, CInt st, CInt (int idx), CStr (strftime_HMS sched),
                                   CStr (strftime_HMS now1), CInt (\<bar>now2 - sched\<bar> div 1000000)]
                                  @ cells @ [CStr tc]],
              prompt_lock := prompt_lock s + 1\<rparr>)"
    unfolding save_def
    by (simp add: c shape_any_off [OF assms(1)] assms(2) Let_def release_def write_excel_def
        abs_int_trunc_seconds del: any_off.simps field_cells.simps)
  with c show ?thesis by blast
qed


subsection \<open>The error flag\<close>

text \<open>
  C7, as stated. The claim is that the error flag, once a completed check has reported
  a fault, stays true for the later checks of the registration. In the run
  \<open>two_checks_actions\<close> the flag of station 3 is true after check 1 (Control Light
  OFF) and false after check 2 (all ON).
\<close>

theorem error_flag_counterexample:
  "Option.bind (run 8 (take 7 two_checks_actions) (init_state [header_row])) (timer_of 3)
     = Some \<lparr>serial = ''SN1'', station = 3, tech = ''Alice'', start = 0, done_checks = 1,
             cancelled = False, error = True\<rparr> \<and>
   Option.bind (run 8 two_checks_actions (init_state [header_row])) (timer_of 3)
     = Some \<lparr>serial = ''SN1'', station = 3, tech = ''Alice'', start = 0, done_checks = 2,
             cancelled = False, error = False\<rparr>"
  by (simp add: two_checks_actions_def fill_ok_def fill_fault_def run_defs flow_defs timer_of_def)


text \<open>
  C7, amended. Whenever a check is committed for a registered station, the error flag of
  its timer afterwards is true exactly when this check has Control Light or Load Bank
  Light equal to OFF, whatever the flag was before: it records the most recent completed
  check.
\<close>

theorem error_flag_is_latest_check:
  assumes "shape fields w" and "timers s st = Some a"
  shows "\<exists>s'. save (sn, st, idx, sched, tc) w now1 now2 s = Ok s'
           \<and> timers s' = timers s
           \<and> error (heap s' a) = (map_of w ''Control Light'' = Some (Choice ''OFF'')
                                   \<or> map_of w ''Load Bank Light'' = Some (Choice ''OFF''))
           \<and> done_checks (heap s' a) = done_checks (heap s a) + 1"
  using save_ok [OF assms, of sn idx sched tc now1 now2] by auto

theorem error_flag_is_latest_check_witness:
  "shape fields [(''Voltage'', Digits ''12'' ''30''), (''Current'', Digits ''1'' ''20''),
                 (''Clamp Current'', Digits [] ''5''), (''Temperature'', Digits ''25'' ''00''),
                 (''Control Light'', Choice ''OFF''), (''Load Bank Light'', Choice ''ON'')] \<and>
   timers (schedule ''SN1'' 3 ''Alice'' 0 (init_state [header_row])) 3 = Some 0 \<and>
   (\<exists>s'. save (''SN1'', 3, 1, seconds 20, ''Alice'')
             [(''Voltage'', Digits ''12'' ''30''), (''Current'', Digits ''1'' ''20''),
              (''Clamp Current'', Digits [] ''5''), (''Temperature'', Digits ''25'' ''00''),
              (''Control Light'', Choice ''OFF''), (''Load Bank Light'', Choice ''ON'')]
             (seconds 21) (seconds 21) (schedule ''SN1'' 3 ''Alice'' 0 (init_state [header_row]))
           = Ok s' \<and> error (heap s' 0) \<and> done_checks (heap s' 0) = 1)"
proof -
  have sh: "shape fields [(''Voltage'', Digits ''12'' ''30''), (''Current'', Digits ''1'' ''20''),
                 (''Clamp Current'', Digits [] ''5''), (''Temperature'', Digits ''25'' ''00''),
                 (''Control Light'', Choice ''OFF''), (''Load Bank Light'', Choice ''ON'')]"
    by (simp add: shape_def fields_def)
  have tm: "timers (schedule ''SN1'' 3 ''Alice'' 0 (init_state [header_row])) 3 = Some 0"
    "done_checks (heap (schedule ''SN1'' 3 ''Alice'' 0 (init_state [header_row])) 0) = 0"
    by (simp_all add: schedule_def init_state_def Let_def TimerData_init_def)
  from error_flag_is_latest_check [OF sh tm(1), of "''SN1''" 1 "seconds 20" "''Alice''"
      "seconds 21" "seconds 21"] sh tm
  show ?thesis by auto
qed

subsection \<open>Verification mismatch\<close>

text \<open>
  C6. When the serial the operator supplies at the rescan dialog differs from the serial
  of the event, the popup returns: the sheet, every timer (so every \<open>done_checks\<close>) and
  the registry are as before, and the semaphore is released, so that any popup waiting
  for it can take it.
\<close>

theorem verify_mismatch_abandons:
  assumes "i < length (popups s)" and "popups s ! i = ((sn, st, idx, sched, tc), Verify)"
    and "strip typed \<noteq> sn"
  shows "\<exists>s'. popup_verify i typed s = Some s'
           \<and> sheet s' = sheet s \<and> heap s' = heap s \<and> timers s' = timers s
           \<and> in_phase i Returned s'
           \<and> prompt_lock s' = prompt_lock s + 1
           \<and> (\<forall>j. in_phase j Spawned s' \<longrightarrow> popup_acquire j s' \<noteq> None)"
  using assms
  by (auto simp: popup_verify_def in_phase_def set_phase_def release_def show_dialog_def
      popup_acquire_def split: prod.splits)

theorem verify_mismatch_abandons_witness:
  "\<exists>s s'. run 8 (take 9 race_actions) (init_state [header_row]) = Some s
      \<and> 0 < length (popups s)
      \<and> popups s ! 0 = ((''SN1'', 1, 1, seconds 20, ''Alice''), Verify)
      \<and> strip ''SN9'' \<noteq> ''SN1''
      \<and> popup_verify 0 ''SN9'' s = Some s'
      \<and> sheet s' = sheet s \<and> heap s' = heap s \<and> timers s' = timers s
      \<and> prompt_lock s = 0 \<and> prompt_lock s' = 1
      \<and> in_phase 0 Returned s' \<and> in_phase 1 Spawned s' \<and> popup_acquire 1 s' \<noteq> None"
proof -
  have "\<exists>s s'. run 8 (take 9 race_actions) (init_state [header_row]) = Some s
      \<and> 0 < length (popups s)
      \<and> popups s ! 0 = ((''SN1'', 1, 1, seconds 20, ''Alice''), Verify)
      \<and> strip ''SN9'' \<noteq> ''SN1'' \<and> prompt_lock s = 0
      \<and> popup_verify 0 ''SN9'' s = Some s' \<and> in_phase 1 Spawned s'"
    by (simp add: race_actions_def run_defs)
  then obtain s s' where r: "run 8 (take 9 race_actions) (init_state [header_row]) = Some s"
    and l: "0 < length (popups s)"
    and p: "popups s ! 0 = ((''SN1'', 1, 1, seconds 20, ''Alice''), Verify)"
    and m: "strip ''SN9'' \<noteq> ''SN1''" and k: "prompt_lock s = 0"
    and v: "popup_verify 0 ''SN9'' s = Some s'" and w: "in_phase 1 Spawned s'"
    by blast
  from verify_mismatch_abandons [OF l p m] v w k
  have "sheet s' = sheet s \<and> heap s' = heap s \<and> timers s' = timers s
          \<and> prompt_lock s' = 1 \<and> in_phase 0 Returned s' \<and> popup_acquire 1 s' \<noteq> None"
    by auto
  with r l p m k v w show ?thesis by blast
qed

subsection \<open>Closing the review window\<close>





end
